theory Spec2Isabelle
  imports Main
begin

section \<open>Python values used by the templater module\<close>

text \<open>
  The module \<^verbatim>\<open>sqlfluff/core/templaters/base.py\<close> works on Python strings, unbounded
  integers, lists, \<^verbatim>\<open>slice\<close> objects and 3-tuples. Integers are \<^typ>\<open>int\<close>, texts are
  \<^typ>\<open>string\<close>, and every operation of Python that can raise is a function into a sum
  type whose left summand is the exception raised.
\<close>

datatype py_exc = IndexError | ValueError | KeyError

text \<open>A \<^verbatim>\<open>slice(start, stop)\<close> object with integer bounds.\<close>

record py_slice =
  start :: int
  stop :: int

text \<open>An element of \<^verbatim>\<open>sliced_file\<close>: \<^verbatim>\<open>Tuple[str, slice, slice]\<close>, read by \<^verbatim>\<open>elem[0]\<close>,
  \<^verbatim>\<open>elem[1]\<close> (the source slice) and \<^verbatim>\<open>elem[2]\<close> (the templated slice).\<close>

type_synonym sliced_elem = "string \<times> py_slice \<times> py_slice"

definition elem0 :: "sliced_elem \<Rightarrow> string" where
  "elem0 elem = fst elem"

definition elem1 :: "sliced_elem \<Rightarrow> py_slice" where
  "elem1 elem = fst (snd elem)"

definition elem2 :: "sliced_elem \<Rightarrow> py_slice" where
  "elem2 elem = snd (snd elem)"

text \<open>\<^verbatim>\<open>xs[i]\<close>: a negative index counts from the end, an index out of range raises.\<close>

definition list_item :: "'a list \<Rightarrow> int \<Rightarrow> py_exc + 'a" where
  "list_item xs i =
     (if 0 \<le> i \<and> i < int (length xs) then Inr (xs ! nat i)
      else if i < 0 \<and> - int (length xs) \<le> i then Inr (xs ! nat (int (length xs) + i))
      else Inl IndexError)"

text \<open>\<^verbatim>\<open>xs[a:b]\<close> and \<^verbatim>\<open>xs[a:]\<close>: bounds are taken from the end when negative and
  clipped to the list; slicing never raises.\<close>

definition slice_bound :: "nat \<Rightarrow> int \<Rightarrow> nat" where
  "slice_bound n i = (if i < 0 then nat (int n + i) else min n (nat i))"

definition list_slice :: "'a list \<Rightarrow> int \<Rightarrow> int \<Rightarrow> 'a list" where
  "list_slice xs a b = drop (slice_bound (length xs) a) (take (slice_bound (length xs) b) xs)"

definition list_slice_from :: "'a list \<Rightarrow> int \<Rightarrow> 'a list" where
  "list_slice_from xs a = drop (slice_bound (length xs) a) xs"

text \<open>\<^verbatim>\<open>min(...)\<close> and \<^verbatim>\<open>max(...)\<close> of a sequence raise \<^verbatim>\<open>ValueError\<close> when it is empty.\<close>

definition py_min :: "int list \<Rightarrow> py_exc + int" where
  "py_min xs = (case xs of [] \<Rightarrow> Inl ValueError | x # rest \<Rightarrow> Inr (fold min rest x))"

definition py_max :: "int list \<Rightarrow> py_exc + int" where
  "py_max xs = (case xs of [] \<Rightarrow> Inl ValueError | x # rest \<Rightarrow> Inr (fold max rest x))"

text \<open>\<^verbatim>\<open>raw_str.find("\n", start)\<close>: the lowest index at or after \<^verbatim>\<open>start\<close> that holds a
  newline, or \<^verbatim>\<open>-1\<close>. \<open>scan_newline cs idx\<close> scans \<open>cs\<close>, whose head sits at index \<open>idx\<close>.\<close>

definition newline :: char where
  "newline = CHR 0x0A"

fun scan_newline :: "string \<Rightarrow> int \<Rightarrow> int" where
  "scan_newline [] idx = - 1"
| "scan_newline (c # cs) idx = (if c = newline then idx else scan_newline cs (idx + 1))"

definition find_newline :: "string \<Rightarrow> int \<Rightarrow> int" where
  "find_newline raw_str start_pos =
     (let from = slice_bound (length raw_str) start_pos
      in scan_newline (drop from raw_str) (int from))"

section \<open>iter\_indices\_of\_newlines\<close>

lemma scan_newline_range:
  "0 \<le> idx \<Longrightarrow> 0 \<le> scan_newline cs idx \<Longrightarrow>
     idx \<le> scan_newline cs idx \<and> scan_newline cs idx < idx + int (length cs)"
proof (induction cs arbitrary: idx)
  case Nil
  then show ?case by simp
next
  case (Cons c cs)
  show ?case
  proof (cases "c = newline")
    case True
    then show ?thesis by simp
  next
    case False
    with Cons.prems have "0 \<le> scan_newline cs (idx + 1)" by simp
    with Cons.IH [of "idx + 1"] Cons.prems False show ?thesis by simp
  qed
qed

lemma find_newline_range:
  assumes "0 \<le> find_newline raw_str start_pos"
  shows "find_newline raw_str start_pos < int (length raw_str)"
    and "start_pos \<le> find_newline raw_str start_pos"
proof -
  let ?from = "slice_bound (length raw_str) start_pos"
  have r: "0 \<le> scan_newline (drop ?from raw_str) (int ?from)"
    using assms by (simp add: find_newline_def Let_def)
  from scan_newline_range [OF _ r]
  have b: "int ?from \<le> scan_newline (drop ?from raw_str) (int ?from)"
    and c: "scan_newline (drop ?from raw_str) (int ?from)
              < int ?from + int (length (drop ?from raw_str))"
    by simp_all
  have le: "?from \<le> length raw_str"
    unfolding slice_bound_def by (cases "start_pos < 0") simp_all
  from c le show "find_newline raw_str start_pos < int (length raw_str)"
    by (simp add: find_newline_def Let_def)
  show "start_pos \<le> find_newline raw_str start_pos"
  proof (cases "start_pos < 0")
    case True
    with assms show ?thesis by simp
  next
    case False
    then have "start_pos \<le> int ?from \<or> int (length raw_str) \<le> int ?from"
      by (auto simp: slice_bound_def min_def)
    then show ?thesis
    proof
      assume "start_pos \<le> int ?from"
      with b show ?thesis by (simp add: find_newline_def Let_def)
    next
      assume "int (length raw_str) \<le> int ?from"
      with b c show ?thesis by simp
    qed
  qed
qed

text \<open>The generator's \<^verbatim>\<open>while True\<close> loop, from a given \<^verbatim>\<open>init_idx\<close>; the list holds
  the values it yields, in order.\<close>

function newlines_after :: "string \<Rightarrow> int \<Rightarrow> int list" where
  "newlines_after raw_str init_idx =
     (let nl_pos = find_newline raw_str (init_idx + 1)
      in if nl_pos \<ge> 0 then nl_pos # newlines_after raw_str nl_pos else [])"
  by pat_completeness auto
termination
proof (relation "measure (\<lambda>(raw_str, init_idx). nat (int (length raw_str) - init_idx))")
  show "wf (measure (\<lambda>(raw_str, init_idx). nat (int (length raw_str) - init_idx)))"
    by simp
next
  fix raw_str :: string and init_idx nl_pos :: int
  assume "nl_pos = find_newline raw_str (init_idx + 1)" and "0 \<le> nl_pos"
  then show "((raw_str, nl_pos), (raw_str, init_idx))
             \<in> measure (\<lambda>(raw_str, init_idx). nat (int (length raw_str) - init_idx))"
    using find_newline_range [of raw_str "init_idx + 1"] by simp
qed

declare newlines_after.simps [simp del]

definition iter_indices_of_newlines :: "string \<Rightarrow> int list" where
  "iter_indices_of_newlines raw_str = newlines_after raw_str (- 1)"

section \<open>TemplatedFile\<close>

record TemplatedFile =
  source_str :: string
  templated_str :: string
  fname :: "string option"
  sliced_file :: "sliced_elem list option"
  source_newlines :: "int list"
  templated_newlines :: "int list"

text \<open>\<^verbatim>\<open>templated_str or source_str\<close>: \<^verbatim>\<open>None\<close> and the empty string are both falsy.\<close>

definition str_or :: "string option \<Rightarrow> string \<Rightarrow> string" where
  "str_or a b = (case a of None \<Rightarrow> b | Some s \<Rightarrow> if s = [] then b else s)"

definition TemplatedFile_init ::
  "string \<Rightarrow> string option \<Rightarrow> string option \<Rightarrow> sliced_elem list option \<Rightarrow> TemplatedFile" where
  "TemplatedFile_init source_str' templated_str' fname' sliced_file' =
     \<lparr> source_str = source_str',
       templated_str = str_or templated_str' source_str',
       fname = fname',
       sliced_file = sliced_file',
       source_newlines = iter_indices_of_newlines source_str',
       templated_newlines = iter_indices_of_newlines (str_or templated_str' source_str') \<rparr>"

definition TemplatedFile_bool :: "TemplatedFile \<Rightarrow> bool" where
  "TemplatedFile_bool self = (templated_str self \<noteq> [])"

subsection \<open>get\_line\_pos\_of\_char\_pos\<close>

text \<open>The \<^verbatim>\<open>while\<close> loop of lines 111-112; it returns the final \<^verbatim>\<open>nl_idx\<close>, or the
  exception raised by the read \<^verbatim>\<open>ref_str[nl_idx + 1]\<close>.\<close>

function nl_idx_loop :: "int list \<Rightarrow> int \<Rightarrow> int \<Rightarrow> py_exc + int" where
  "nl_idx_loop ref_str char_pos nl_idx =
     (if nl_idx + 1 < int (length ref_str) then
        (case list_item ref_str (nl_idx + 1) of
           Inl e \<Rightarrow> Inl e
         | Inr v \<Rightarrow>
             if v < char_pos then nl_idx_loop ref_str char_pos (nl_idx + 1) else Inr nl_idx)
      else Inr nl_idx)"
  by pat_completeness auto
termination
  by (relation "measure (\<lambda>(ref_str, char_pos, nl_idx). nat (int (length ref_str) - nl_idx))")
    auto

declare nl_idx_loop.simps [simp del]

definition get_line_pos_of_char_pos ::
  "TemplatedFile \<Rightarrow> int \<Rightarrow> bool \<Rightarrow> py_exc + (int \<times> int)" where
  "get_line_pos_of_char_pos self char_pos source =
     (let ref_str = (if source then source_newlines self else templated_newlines self)
      in case nl_idx_loop ref_str char_pos (- 1) of
           Inl e \<Rightarrow> Inl e
         | Inr nl_idx \<Rightarrow>
             if nl_idx \<ge> 0 then
               (case list_item ref_str nl_idx of
                  Inl e \<Rightarrow> Inl e
                | Inr v \<Rightarrow> Inr (nl_idx + 2, char_pos - v))
             else Inr (1, char_pos + 1))"

subsection \<open>template\_slice\_to\_source\_slice\<close>

text \<open>The first \<^verbatim>\<open>for\<close> loop (lines 129-133): \<open>start_idx\<close> is the value assigned so far,
  \<open>idx\<close> the index \<^verbatim>\<open>enumerate\<close> gives to the head of the remaining list.\<close>

fun start_idx_loop :: "py_slice \<Rightarrow> int \<Rightarrow> int \<Rightarrow> sliced_elem list \<Rightarrow> int" where
  "start_idx_loop template_slice start_idx idx [] = start_idx"
| "start_idx_loop template_slice start_idx idx (elem # rest) =
     (if stop (elem2 elem) > start template_slice then idx
      else start_idx_loop template_slice idx (idx + 1) rest)"

text \<open>The second \<^verbatim>\<open>for\<close> loop (lines 135-139).\<close>

fun stop_idx_loop :: "py_slice \<Rightarrow> int \<Rightarrow> int \<Rightarrow> sliced_elem list \<Rightarrow> int" where
  "stop_idx_loop template_slice stop_idx idx [] = stop_idx"
| "stop_idx_loop template_slice stop_idx idx (elem # rest) =
     (if stop (elem2 elem) \<ge> stop template_slice then idx
      else stop_idx_loop template_slice idx (idx + 1) rest)"

text \<open>Lines 128-142: the slices of the table the request touches.\<close>

definition relevant_slices :: "sliced_elem list \<Rightarrow> py_slice \<Rightarrow> sliced_elem list" where
  "relevant_slices sf template_slice =
     (let start_idx = start_idx_loop template_slice 0 0 sf;
          stop_idx = stop_idx_loop template_slice 0 0 (list_slice_from sf start_idx);
          stop_idx = stop_idx + (start_idx + 1)
      in list_slice sf start_idx stop_idx)"

text \<open>Lines 146-160: the start and stop boundaries, each with the value it leaves in
  \<^verbatim>\<open>is_literal\<close>.\<close>

definition start_boundary :: "sliced_elem \<Rightarrow> py_slice \<Rightarrow> int \<times> bool" where
  "start_boundary first template_slice =
     (if elem0 first = ''literal'' then
        (let offset = start template_slice - start (elem2 first)
         in (start (elem1 first) + offset, True))
      else (start (elem1 first), False))"

definition stop_boundary :: "sliced_elem \<Rightarrow> py_slice \<Rightarrow> bool \<Rightarrow> int \<times> bool" where
  "stop_boundary final template_slice is_literal =
     (if elem0 final = ''literal'' then
        (let offset = stop (elem2 final) - stop template_slice
         in (stop (elem1 final) - offset, is_literal))
      else (stop (elem1 final), False))"

definition template_slice_to_source_slice ::
  "TemplatedFile \<Rightarrow> py_slice \<Rightarrow> py_exc + (py_slice \<times> bool)" where
  "template_slice_to_source_slice self template_slice =
     (case sliced_file self of
        None \<Rightarrow> Inr (template_slice, False)
      | Some sf \<Rightarrow>
          if sf = [] then Inr (template_slice, False)
          else
          (let slices = relevant_slices sf template_slice
           in case list_item slices 0 of
                Inl exc \<Rightarrow> Inl exc
              | Inr first \<Rightarrow>
                  (case list_item slices (- 1) of
                     Inl exc \<Rightarrow> Inl exc
                   | Inr final \<Rightarrow>
                       (let (source_start, is_literal) = start_boundary first template_slice;
                            (source_stop, is_literal) =
                               stop_boundary final template_slice is_literal;
                            is_literal =
                               (if list_ex (\<lambda>elem. elem0 elem \<noteq> ''literal'') slices
                                then False else is_literal)
                        in if source_start > source_stop then
                             (case py_min (map (\<lambda>elem. start (elem1 elem)) slices) of
                                Inl exc \<Rightarrow> Inl exc
                              | Inr lo \<Rightarrow>
                                  (case py_max (map (\<lambda>elem. stop (elem1 elem)) slices) of
                                     Inl exc \<Rightarrow> Inl exc
                                   | Inr hi \<Rightarrow>
                                       Inr (\<lparr> start = lo, stop = hi \<rparr>, is_literal)))
                           else Inr (\<lparr> start = source_start, stop = source_stop \<rparr>,
                                     is_literal)))))"

section \<open>RawTemplater equality\<close>

text \<open>The templater classes of the repository: \<^verbatim>\<open>RawTemplater\<close> and its subclass
  \<^verbatim>\<open>DataformTemplater(RawTemplater)\<close>.\<close>

datatype templater_class = RawTemplater | DataformTemplater

fun base_class :: "templater_class \<Rightarrow> templater_class option" where
  "base_class RawTemplater = None"
| "base_class DataformTemplater = Some RawTemplater"

text \<open>\<^verbatim>\<open>issubclass(c, d)\<close>: \<open>c\<close> is \<open>d\<close> or \<open>d\<close> is among the bases of \<open>c\<close>; no class here
  has a base that has a base of its own among the templaters, so one step reaches them all.\<close>

definition issubclass :: "templater_class \<Rightarrow> templater_class \<Rightarrow> bool" where
  "issubclass c d = (c = d \<or> base_class c = Some d)"

text \<open>A templater instance; \<open>class_of\<close> is \<^verbatim>\<open>self.__class__\<close>.\<close>

record templater =
  class_of :: templater_class

definition isinstance :: "templater \<Rightarrow> templater_class \<Rightarrow> bool" where
  "isinstance obj c = issubclass (class_of obj) c"

definition RawTemplater_eq :: "templater \<Rightarrow> templater \<Rightarrow> bool" where
  "RawTemplater_eq self other = isinstance other (class_of self)"

text \<open>The expression \<^verbatim>\<open>v == w\<close> as Python evaluates it for two templaters. Both classes
  inherit \<^verbatim>\<open>RawTemplater.__eq__\<close>, which never returns \<^verbatim>\<open>NotImplemented\<close>. When the class of
  \<open>w\<close> is a proper subclass of the class of \<open>v\<close>, the method of \<open>w\<close> is called first, with
  the operands exchanged; otherwise the method of \<open>v\<close> is called.\<close>

definition py_eq :: "templater \<Rightarrow> templater \<Rightarrow> bool" where
  "py_eq v w =
     (if class_of v \<noteq> class_of w \<and> issubclass (class_of w) (class_of v)
      then RawTemplater_eq w v
      else RawTemplater_eq v w)"

section \<open>The newline index of the specification\<close>

text \<open>The newline index in the specification's words: the offsets of every line-break
  character of the text, in ascending order.\<close>

definition newline_offsets :: "string \<Rightarrow> int list" where
  "newline_offsets text = map int (filter (\<lambda>i. text ! i = newline) [0..<length text])"

text \<open>The greatest newline offset strictly below an offset, if there is one.\<close>

definition greatest_newline_before :: "string \<Rightarrow> int \<Rightarrow> int option" where
  "greatest_newline_before text offset =
     (let below = filter (\<lambda>n. n < offset) (newline_offsets text)
      in if below = [] then None else Some (Max (set below)))"

text \<open>The number of newline offsets at most \<open>n\<close>.\<close>

definition count_newlines_upto :: "string \<Rightarrow> int \<Rightarrow> nat" where
  "count_newlines_upto text n = length (filter (\<lambda>p. p \<le> n) (newline_offsets text))"

text \<open>The line and column as section 4.1 of the specification computes them.\<close>

definition spec_line_and_column :: "string \<Rightarrow> int \<Rightarrow> int \<times> int" where
  "spec_line_and_column text offset =
     (case greatest_newline_before text offset of
        None \<Rightarrow> (1, offset + 1)
      | Some n \<Rightarrow> (int (count_newlines_upto text n) + 2, offset - n))"

text \<open>The text a query is about: the source text when \<^verbatim>\<open>source\<close> is true, the templated
  text otherwise.\<close>

definition selected_text :: "TemplatedFile \<Rightarrow> bool \<Rightarrow> string" where
  "selected_text self source = (if source then source_str self else templated_str self)"

section \<open>Example tables\<close>

text \<open>The two correspondence tables of the specification's examples: a literal prefix
  followed by a templated reference, and a loop body emitted out of source order.\<close>

definition ref_table :: "sliced_elem list" where
  "ref_table =
     [(''literal'', \<lparr> start = 0, stop = 14 \<rparr>, \<lparr> start = 0, stop = 14 \<rparr>),
      (''templated'', \<lparr> start = 14, stop = 26 \<rparr>, \<lparr> start = 14, stop = 21 \<rparr>)]"

definition loop_table :: "sliced_elem list" where
  "loop_table =
     [(''literal'', \<lparr> start = 20, stop = 25 \<rparr>, \<lparr> start = 0, stop = 5 \<rparr>),
      (''literal'', \<lparr> start = 0, stop = 5 \<rparr>, \<lparr> start = 5, stop = 10 \<rparr>)]"

section \<open>Span translation\<close>

subsection \<open>Facts about the window of slices\<close>

lemma sliced_file_init [simp]:
  "sliced_file (TemplatedFile_init s t f sl) = sl"
  by (simp add: TemplatedFile_init_def)

lemma translate_without_table:
  "sliced_file self = None \<Longrightarrow>
     template_slice_to_source_slice self ts = Inr (ts, False)"
  "sliced_file self = Some [] \<Longrightarrow>
     template_slice_to_source_slice self ts = Inr (ts, False)"
  by (simp_all add: template_slice_to_source_slice_def)

lemma start_idx_loop_range:
  "xs \<noteq> [] \<Longrightarrow> i \<le> start_idx_loop ts s i xs \<and> start_idx_loop ts s i xs < i + int (length xs)"
proof (induction xs arbitrary: s i)
  case Nil
  then show ?case by simp
next
  case (Cons elem rest)
  show ?case
  proof (cases rest)
    case Nil
    then show ?thesis by simp
  next
    case (Cons r rs)
    then have "rest \<noteq> []" by simp
    from Cons.IH [OF this, of "i + 1" i] show ?thesis by simp
  qed
qed

lemma stop_idx_loop_range:
  "xs \<noteq> [] \<Longrightarrow> i \<le> stop_idx_loop ts s i xs \<and> stop_idx_loop ts s i xs < i + int (length xs)"
proof (induction xs arbitrary: s i)
  case Nil
  then show ?case by simp
next
  case (Cons elem rest)
  show ?case
  proof (cases rest)
    case Nil
    then show ?thesis by simp
  next
    case (Cons r rs)
    then have "rest \<noteq> []" by simp
    from Cons.IH [OF this, of "i + 1" i] show ?thesis by simp
  qed
qed

lemma relevant_slices_nonempty:
  assumes "sf \<noteq> []"
  shows "relevant_slices sf ts \<noteq> []"
proof -
  define a where "a = start_idx_loop ts 0 0 sf"
  have a: "0 \<le> a" "a < int (length sf)"
    using start_idx_loop_range [OF assms, of 0 ts 0] by (simp_all add: a_def)
  then have sa: "slice_bound (length sf) a = nat a"
    by (simp add: slice_bound_def)
  define rest where "rest = list_slice_from sf a"
  have rest: "rest \<noteq> []"
    using a by (simp add: rest_def list_slice_from_def sa)
  define b where "b = stop_idx_loop ts 0 0 rest"
  have b: "0 \<le> b"
    using stop_idx_loop_range [OF rest, of 0 ts 0] by (simp add: b_def)
  have sb: "nat a < slice_bound (length sf) (b + (a + 1))"
    using a b by (simp add: slice_bound_def)
  have "relevant_slices sf ts = list_slice sf a (b + (a + 1))"
    by (simp add: relevant_slices_def Let_def a_def b_def rest_def)
  also have "\<dots> \<noteq> []"
    using sb a by (simp add: list_slice_def sa)
  finally show ?thesis .
qed

lemma relevant_slices_subset:
  "set (relevant_slices sf ts) \<subseteq> set sf"
  unfolding relevant_slices_def Let_def list_slice_def
  by (meson set_drop_subset set_take_subset subset_trans)

lemma list_item_first: "xs \<noteq> [] \<Longrightarrow> list_item xs 0 = Inr (hd xs)"
  by (cases xs) (simp_all add: list_item_def)

lemma list_item_final: "xs \<noteq> [] \<Longrightarrow> list_item xs (- 1) = Inr (last xs)"
  by (cases xs rule: rev_cases) (simp_all add: list_item_def nth_append)

lemma py_min_Min: "xs \<noteq> [] \<Longrightarrow> py_min xs = Inr (Min (set xs))"
  by (cases xs) (simp_all add: py_min_def Min.set_eq_fold [symmetric])

lemma py_max_Max: "xs \<noteq> [] \<Longrightarrow> py_max xs = Inr (Max (set xs))"
  by (cases xs) (simp_all add: py_max_def Max.set_eq_fold [symmetric])

lemma source_stop_flag_free:
  "fst (stop_boundary final ts b) = fst (stop_boundary final ts True)"
  by (simp add: stop_boundary_def Let_def)

lemma is_literal_all:
  assumes "slices \<noteq> []"
  shows "(if list_ex (\<lambda>elem. elem0 elem \<noteq> ''literal'') slices then False
          else snd (stop_boundary (last slices) ts (snd (start_boundary (hd slices) ts))))
         = list_all (\<lambda>elem. elem0 elem = ''literal'') slices"
proof (cases "list_ex (\<lambda>elem. elem0 elem \<noteq> ''literal'') slices")
  case True
  then show ?thesis by (auto simp: list_ex_iff list_all_iff)
next
  case False
  then have all: "\<forall>elem\<in>set slices. elem0 elem = ''literal''"
    by (simp add: list_ex_iff)
  with assms have "elem0 (hd slices) = ''literal''" "elem0 (last slices) = ''literal''"
    by simp_all
  with False all show ?thesis
    by (simp add: list_all_iff start_boundary_def stop_boundary_def Let_def)
qed

lemma template_slice_to_source_slice_table:
  assumes sf: "sliced_file self = Some sf" "sf \<noteq> []"
  shows "template_slice_to_source_slice self ts =
     Inr ((if fst (start_boundary (hd (relevant_slices sf ts)) ts)
              > fst (stop_boundary (last (relevant_slices sf ts)) ts True)
           then \<lparr> start = Min (set (map (\<lambda>elem. start (elem1 elem)) (relevant_slices sf ts))),
                  stop = Max (set (map (\<lambda>elem. stop (elem1 elem)) (relevant_slices sf ts))) \<rparr>
           else \<lparr> start = fst (start_boundary (hd (relevant_slices sf ts)) ts),
                  stop = fst (stop_boundary (last (relevant_slices sf ts)) ts True) \<rparr>),
          list_all (\<lambda>elem. elem0 elem = ''literal'') (relevant_slices sf ts))"
proof -
  let ?slices = "relevant_slices sf ts"
  have ne: "?slices \<noteq> []"
    using sf(2) by (rule relevant_slices_nonempty)
  have items: "list_item ?slices 0 = Inr (hd ?slices)"
    "list_item ?slices (- 1) = Inr (last ?slices)"
    using ne by (simp_all add: list_item_first list_item_final)
  have bounds:
    "py_min (map (\<lambda>elem. start (elem1 elem)) ?slices)
       = Inr (Min (set (map (\<lambda>elem. start (elem1 elem)) ?slices)))"
    "py_max (map (\<lambda>elem. stop (elem1 elem)) ?slices)
       = Inr (Max (set (map (\<lambda>elem. stop (elem1 elem)) ?slices)))"
    using ne by (simp_all add: py_min_Min py_max_Max)
  show ?thesis
    using is_literal_all [OF ne, of ts]
    by (simp add: template_slice_to_source_slice_def sf items bounds Let_def split_def
        source_stop_flag_free [of "last ?slices" ts "snd (start_boundary (hd ?slices) ts)"]
        del: set_map)
qed

lemmas window_defs =
  relevant_slices_def list_slice_def list_slice_from_def slice_bound_def
  start_boundary_def stop_boundary_def elem0_def elem1_def elem2_def

lemma loop_window:
  "relevant_slices loop_table \<lparr> start = 0, stop = 10 \<rparr> = loop_table"
  by (simp add: loop_table_def window_defs)

lemma ref_window_1:
  "relevant_slices ref_table \<lparr> start = 0, stop = 14 \<rparr> = [ref_table ! 0]"
  by (simp add: ref_table_def window_defs)

lemma ref_window_2:
  "relevant_slices ref_table \<lparr> start = 14, stop = 21 \<rparr> = [ref_table ! 1]"
  by (simp add: ref_table_def window_defs)

lemma single_window:
  "relevant_slices [e] ts = [e]"
  by (simp add: window_defs)

lemmas boundary_defs = start_boundary_def stop_boundary_def elem0_def elem1_def elem2_def

lemma ref_translate_1:
  "template_slice_to_source_slice (TemplatedFile_init s t f (Some ref_table))
       \<lparr> start = 0, stop = 14 \<rparr> = Inr (\<lparr> start = 0, stop = 14 \<rparr>, True)"
proof -
  have ne: "ref_table \<noteq> []"
    by (simp add: ref_table_def)
  show ?thesis
    unfolding template_slice_to_source_slice_table [OF sliced_file_init ne] ref_window_1
    by (simp add: ref_table_def boundary_defs)
qed

lemma ref_translate_2:
  "template_slice_to_source_slice (TemplatedFile_init s t f (Some ref_table))
       \<lparr> start = 14, stop = 21 \<rparr> = Inr (\<lparr> start = 14, stop = 26 \<rparr>, False)"
proof -
  have ne: "ref_table \<noteq> []"
    by (simp add: ref_table_def)
  show ?thesis
    unfolding template_slice_to_source_slice_table [OF sliced_file_init ne] ref_window_2
    by (simp add: ref_table_def boundary_defs)
qed

text \<open>
  Claim C1 (amended). When the table is present and the computed \<^verbatim>\<open>source_start\<close> exceeds
  the computed \<^verbatim>\<open>source_stop\<close>, \<^verbatim>\<open>template_slice_to_source_slice\<close> returns the widest
  enclosing span, from the least source start to the greatest source stop over the window
  of slices; the flag it returns is true exactly when every slice of the window is
  \<^verbatim>\<open>"literal"\<close>: the fallback leaves the flag as it was.
\<close>

theorem fallback_widest_span:
  assumes "sliced_file self = Some sf" and "sf \<noteq> []"
    and "list_item (relevant_slices sf ts) 0 = Inr first"
    and "list_item (relevant_slices sf ts) (- 1) = Inr final"
    and "fst (start_boundary first ts)
           > fst (stop_boundary final ts (snd (start_boundary first ts)))"
  shows "template_slice_to_source_slice self ts =
           Inr (\<lparr> start = Min (set (map (\<lambda>elem. start (elem1 elem)) (relevant_slices sf ts))),
                  stop = Max (set (map (\<lambda>elem. stop (elem1 elem)) (relevant_slices sf ts))) \<rparr>,
                list_all (\<lambda>elem. elem0 elem = ''literal'') (relevant_slices sf ts))"
proof -
  have ne: "relevant_slices sf ts \<noteq> []"
    using assms(2) by (rule relevant_slices_nonempty)
  have "first = hd (relevant_slices sf ts)" "final = last (relevant_slices sf ts)"
    using assms(3,4) ne by (simp_all add: list_item_first list_item_final)
  with assms(5) show ?thesis
    by (simp add: template_slice_to_source_slice_table [OF assms(1,2)]
        source_stop_flag_free [of _ ts "snd (start_boundary (hd (relevant_slices sf ts)) ts)"]
        del: set_map)
qed

theorem fallback_widest_span_witness:
  "template_slice_to_source_slice
     (TemplatedFile_init ''abcdefghijklmnopqrstuvwxy'' (Some ''uvwxyabcde'') None
        (Some loop_table))
     \<lparr> start = 0, stop = 10 \<rparr>
   = Inr (\<lparr> start = 0, stop = 25 \<rparr>, True)"
proof -
  let ?self = "TemplatedFile_init ''abcdefghijklmnopqrstuvwxy'' (Some ''uvwxyabcde'') None
        (Some loop_table)"
  let ?ts = "\<lparr> start = 0, stop = 10 \<rparr>"
  have 1: "sliced_file ?self = Some loop_table"
    by (simp add: TemplatedFile_init_def)
  have 2: "loop_table \<noteq> []"
    by (simp add: loop_table_def)
  have 3: "list_item (relevant_slices loop_table ?ts) 0 = Inr (loop_table ! 0)"
    by (simp add: loop_window) (simp add: loop_table_def list_item_def)
  have 4: "list_item (relevant_slices loop_table ?ts) (- 1) = Inr (loop_table ! 1)"
    by (simp add: loop_window) (simp add: loop_table_def list_item_def)
  have 5: "fst (start_boundary (loop_table ! 0) ?ts)
           > fst (stop_boundary (loop_table ! 1) ?ts (snd (start_boundary (loop_table ! 0) ?ts)))"
    by (simp add: loop_table_def window_defs)
  from fallback_widest_span [OF 1 2 3 4 5] show ?thesis
    by (simp add: loop_window) (simp add: loop_table_def elem0_def elem1_def)
qed

text \<open>
  On the loop table both slices are literal, the computed bounds are 20 and 5, and the
  flag returned with the widest span \<open>[0, 25)\<close> is true, not false.
\<close>

theorem fallback_flag_counterexample:
  "fst (start_boundary (hd (relevant_slices loop_table \<lparr> start = 0, stop = 10 \<rparr>))
         \<lparr> start = 0, stop = 10 \<rparr>) = 20
   \<and> fst (stop_boundary (last (relevant_slices loop_table \<lparr> start = 0, stop = 10 \<rparr>))
         \<lparr> start = 0, stop = 10 \<rparr> True) = 5
   \<and> template_slice_to_source_slice
        (TemplatedFile_init ''abcdefghijklmnopqrstuvwxy'' (Some ''uvwxyabcde'') None
           (Some loop_table))
        \<lparr> start = 0, stop = 10 \<rparr>
       \<noteq> Inr (\<lparr> start = 0, stop = 25 \<rparr>, False)"
proof -
  have "loop_table \<noteq> []"
    by (simp add: loop_table_def)
  then have "template_slice_to_source_slice
        (TemplatedFile_init ''abcdefghijklmnopqrstuvwxy'' (Some ''uvwxyabcde'') None
           (Some loop_table))
        \<lparr> start = 0, stop = 10 \<rparr> = Inr (\<lparr> start = 0, stop = 25 \<rparr>, True)"
    by (subst template_slice_to_source_slice_table [of _ loop_table])
       (simp_all add: TemplatedFile_init_def loop_window,
        simp add: loop_table_def window_defs)
  moreover have "fst (start_boundary (hd (relevant_slices loop_table \<lparr> start = 0, stop = 10 \<rparr>))
         \<lparr> start = 0, stop = 10 \<rparr>) = 20"
    by (simp add: loop_window) (simp add: loop_table_def window_defs)
  moreover have "fst (stop_boundary (last (relevant_slices loop_table \<lparr> start = 0, stop = 10 \<rparr>))
         \<lparr> start = 0, stop = 10 \<rparr> True) = 5"
    by (simp add: loop_window) (simp add: loop_table_def window_defs)
  ultimately show ?thesis by simp
qed

text \<open>
  Claim C3 (amended). \<^verbatim>\<open>template_slice_to_source_slice\<close> has no span validation and no
  \<^verbatim>\<open>InvalidSpan\<close> failure: for every file and every span with integer bounds, reversed,
  negative or past the end of the text included, it returns a source slice and a flag and
  raises nothing. In particular it never fails on a valid span.
\<close>

theorem translate_never_raises:
  "\<exists>source_slice is_literal.
     template_slice_to_source_slice self template_slice = Inr (source_slice, is_literal)"
proof (cases "sliced_file self")
  case None
  then have "template_slice_to_source_slice self template_slice = Inr (template_slice, False)"
    by (rule translate_without_table)
  then show ?thesis by blast
next
  case (Some sf)
  show ?thesis
  proof (cases "sf = []")
    case True
    with Some have "template_slice_to_source_slice self template_slice
                      = Inr (template_slice, False)"
      by (simp add: translate_without_table)
    then show ?thesis by blast
  next
    case False
    from template_slice_to_source_slice_table [OF Some False, of template_slice]
    show ?thesis by blast
  qed
qed

text \<open>
  A reversed span, a span with a negative start and a stop past the text, and (with a table)
  a span wholly past the text are all answered with a result, not with an error.
\<close>

theorem invalid_span_counterexample:
  "template_slice_to_source_slice (TemplatedFile_init ''SELECT 1'' None None None)
     \<lparr> start = 5, stop = 2 \<rparr> = Inr (\<lparr> start = 5, stop = 2 \<rparr>, False)
   \<and> template_slice_to_source_slice (TemplatedFile_init ''SELECT 1'' None None None)
     \<lparr> start = - 3, stop = 40 \<rparr> = Inr (\<lparr> start = - 3, stop = 40 \<rparr>, False)
   \<and> template_slice_to_source_slice
       (TemplatedFile_init ''SELECT 1'' None None
          (Some [(''literal'', \<lparr> start = 0, stop = 8 \<rparr>, \<lparr> start = 0, stop = 8 \<rparr>)]))
     \<lparr> start = 20, stop = 30 \<rparr> = Inr (\<lparr> start = 20, stop = 30 \<rparr>, True)"
proof (intro conjI)
  show "template_slice_to_source_slice (TemplatedFile_init ''SELECT 1'' None None None)
     \<lparr> start = 5, stop = 2 \<rparr> = Inr (\<lparr> start = 5, stop = 2 \<rparr>, False)"
    by (rule translate_without_table) simp
  show "template_slice_to_source_slice (TemplatedFile_init ''SELECT 1'' None None None)
     \<lparr> start = - 3, stop = 40 \<rparr> = Inr (\<lparr> start = - 3, stop = 40 \<rparr>, False)"
    by (rule translate_without_table) simp
  let ?e = "(''literal'', \<lparr> start = 0, stop = 8 \<rparr>, \<lparr> start = 0, stop = 8 \<rparr>)"
  have "template_slice_to_source_slice
       (TemplatedFile_init ''SELECT 1'' None None (Some [?e])) \<lparr> start = 20, stop = 30 \<rparr>
     = Inr (\<lparr> start = 20, stop = 30 \<rparr>, True)"
    by (subst template_slice_to_source_slice_table [of _ "[?e]"])
       (simp_all add: single_window, simp add: start_boundary_def stop_boundary_def elem0_def elem1_def elem2_def)
  then show "template_slice_to_source_slice
       (TemplatedFile_init ''SELECT 1'' None None
          (Some [(''literal'', \<lparr> start = 0, stop = 8 \<rparr>, \<lparr> start = 0, stop = 8 \<rparr>)]))
     \<lparr> start = 20, stop = 30 \<rparr> = Inr (\<lparr> start = 20, stop = 30 \<rparr>, True)" .
qed

text \<open>
  Claim C4. On the table of a literal slice (source \<open>[0,14)\<close>, templated \<open>[0,14)\<close>)
  followed by a templated slice (source \<open>[14,26)\<close>, templated \<open>[14,21)\<close>), the span
  \<open>[0,14)\<close> maps to \<open>[0,14)\<close> with flag true and \<open>[14,21)\<close> maps to \<open>[14,26)\<close>
  with flag false. In general, with a table present and outside the fallback case (the
  computed start does not exceed the computed stop), the flag returned is false if and only
  if some slice of the window is not \<^verbatim>\<open>"literal"\<close>.
\<close>

theorem window_translation:
  "template_slice_to_source_slice (TemplatedFile_init s t f (Some ref_table))
       \<lparr> start = 0, stop = 14 \<rparr> = Inr (\<lparr> start = 0, stop = 14 \<rparr>, True)
   \<and> template_slice_to_source_slice (TemplatedFile_init s t f (Some ref_table))
       \<lparr> start = 14, stop = 21 \<rparr> = Inr (\<lparr> start = 14, stop = 26 \<rparr>, False)
   \<and> (sliced_file self = Some sf \<and> sf \<noteq> []
        \<and> list_item (relevant_slices sf ts) 0 = Inr first
        \<and> list_item (relevant_slices sf ts) (- 1) = Inr final
        \<and> \<not> fst (start_boundary first ts)
             > fst (stop_boundary final ts (snd (start_boundary first ts)))
      \<longrightarrow> (\<exists>source_slice is_literal.
             template_slice_to_source_slice self ts = Inr (source_slice, is_literal)
           \<and> (is_literal = False)
               = (\<exists>elem \<in> set (relevant_slices sf ts). elem0 elem \<noteq> ''literal'')))"
proof (intro conjI impI)
  show "template_slice_to_source_slice (TemplatedFile_init s t f (Some ref_table))
       \<lparr> start = 0, stop = 14 \<rparr> = Inr (\<lparr> start = 0, stop = 14 \<rparr>, True)"
    by (rule ref_translate_1)
  show "template_slice_to_source_slice (TemplatedFile_init s t f (Some ref_table))
       \<lparr> start = 14, stop = 21 \<rparr> = Inr (\<lparr> start = 14, stop = 26 \<rparr>, False)"
    by (rule ref_translate_2)
next
  assume a: "sliced_file self = Some sf \<and> sf \<noteq> []
        \<and> list_item (relevant_slices sf ts) 0 = Inr first
        \<and> list_item (relevant_slices sf ts) (- 1) = Inr final
        \<and> \<not> fst (start_boundary first ts)
             > fst (stop_boundary final ts (snd (start_boundary first ts)))"
  then have sf: "sliced_file self = Some sf" "sf \<noteq> []"
    by blast+
  define flag where "flag = list_all (\<lambda>elem. elem0 elem = ''literal'') (relevant_slices sf ts)"
  have "\<exists>source_slice. template_slice_to_source_slice self ts = Inr (source_slice, flag)"
    unfolding template_slice_to_source_slice_table [OF sf, of ts] flag_def by blast
  moreover have "(flag = False)
           = (\<exists>elem \<in> set (relevant_slices sf ts). elem0 elem \<noteq> ''literal'')"
    by (simp add: flag_def list_all_iff)
  ultimately show "\<exists>source_slice is_literal.
             template_slice_to_source_slice self ts = Inr (source_slice, is_literal)
           \<and> (is_literal = False)
               = (\<exists>elem \<in> set (relevant_slices sf ts). elem0 elem \<noteq> ''literal'')"
    by blast
qed

theorem window_translation_witness:
  "\<exists>source_slice is_literal.
     template_slice_to_source_slice (TemplatedFile_init [] None None (Some ref_table))
       \<lparr> start = 14, stop = 21 \<rparr> = Inr (source_slice, is_literal)
   \<and> (is_literal = False)
       = (\<exists>elem \<in> set (relevant_slices ref_table \<lparr> start = 14, stop = 21 \<rparr>).
            elem0 elem \<noteq> ''literal'')"
proof -
  let ?self = "TemplatedFile_init [] None None (Some ref_table)"
  let ?ts = "\<lparr> start = 14, stop = 21 \<rparr>"
  let ?e = "ref_table ! 1"
  have 1: "sliced_file ?self = Some ref_table"
    by simp
  have 2: "ref_table \<noteq> []"
    by (simp add: ref_table_def)
  have 3: "list_item (relevant_slices ref_table ?ts) 0 = Inr ?e"
    unfolding ref_window_2 by (simp add: list_item_def)
  have 4: "list_item (relevant_slices ref_table ?ts) (- 1) = Inr ?e"
    unfolding ref_window_2 by (simp add: list_item_def)
  have 5: "\<not> fst (start_boundary ?e ?ts)
             > fst (stop_boundary ?e ?ts (snd (start_boundary ?e ?ts)))"
    by (simp add: ref_table_def boundary_defs)
  from window_translation [of "[]" None None ?self ref_table ?ts ?e ?e] 1 2 3 4 5
  show ?thesis by blast
qed

text \<open>
  Claim C6. When \<^verbatim>\<open>sliced_file\<close> is \<^verbatim>\<open>None\<close> or the empty list,
  \<^verbatim>\<open>template_slice_to_source_slice\<close> returns the templated span it was given, unchanged,
  with flag false, whatever the span.
\<close>

theorem no_table_identity:
  "sliced_file self = None \<or> sliced_file self = Some [] \<Longrightarrow>
     template_slice_to_source_slice self template_slice = Inr (template_slice, False)"
  by (auto simp: template_slice_to_source_slice_def)

theorem no_table_identity_witness:
  "template_slice_to_source_slice (TemplatedFile_init ''SELECT 1'' None None None)
     \<lparr> start = 2, stop = 6 \<rparr> = Inr (\<lparr> start = 2, stop = 6 \<rparr>, False)
   \<and> template_slice_to_source_slice (TemplatedFile_init ''SELECT 1'' None None (Some []))
     \<lparr> start = 2, stop = 6 \<rparr> = Inr (\<lparr> start = 2, stop = 6 \<rparr>, False)"
proof
  have "sliced_file (TemplatedFile_init ''SELECT 1'' None None None) = None
        \<or> sliced_file (TemplatedFile_init ''SELECT 1'' None None None) = Some []"
    by simp
  then show "template_slice_to_source_slice (TemplatedFile_init ''SELECT 1'' None None None)
     \<lparr> start = 2, stop = 6 \<rparr> = Inr (\<lparr> start = 2, stop = 6 \<rparr>, False)"
    by (rule no_table_identity)
  have "sliced_file (TemplatedFile_init ''SELECT 1'' None None (Some [])) = None
        \<or> sliced_file (TemplatedFile_init ''SELECT 1'' None None (Some [])) = Some []"
    by simp
  then show "template_slice_to_source_slice (TemplatedFile_init ''SELECT 1'' None None (Some []))
     \<lparr> start = 2, stop = 6 \<rparr> = Inr (\<lparr> start = 2, stop = 6 \<rparr>, False)"
    by (rule no_table_identity)
qed

text \<open>
  Claim C7. For a text of length \<open>N\<close> and the table of one literal slice whose source and
  templated spans are both \<open>[0, N)\<close>, every sub-span \<open>[a, b)\<close> of \<open>[0, N)\<close> is mapped to
  itself with flag true.
\<close>

theorem literal_round_trip:
  assumes "0 \<le> a" and "a \<le> b" and "b \<le> int (length s)"
  shows "template_slice_to_source_slice
           (TemplatedFile_init s t f
              (Some [(''literal'', \<lparr> start = 0, stop = int (length s) \<rparr>,
                                  \<lparr> start = 0, stop = int (length s) \<rparr>)]))
           \<lparr> start = a, stop = b \<rparr>
         = Inr (\<lparr> start = a, stop = b \<rparr>, True)"
proof -
  let ?e = "(''literal'', \<lparr> start = 0, stop = int (length s) \<rparr>,
                         \<lparr> start = 0, stop = int (length s) \<rparr>)"
  have ne: "[?e] \<noteq> []"
    by simp
  show ?thesis
    unfolding template_slice_to_source_slice_table [OF sliced_file_init ne] single_window
    using assms by (simp add: boundary_defs)
qed

theorem literal_round_trip_witness:
  "template_slice_to_source_slice
           (TemplatedFile_init ''SELECT 1'' None None
              (Some [(''literal'', \<lparr> start = 0, stop = 8 \<rparr>, \<lparr> start = 0, stop = 8 \<rparr>)]))
           \<lparr> start = 2, stop = 6 \<rparr>
         = Inr (\<lparr> start = 2, stop = 6 \<rparr>, True)"
  using literal_round_trip [of 2 6 "''SELECT 1''" None None] by simp

section \<open>Line and column resolution\<close>

lemma scan_newline_filter:
  "a \<le> length s \<Longrightarrow>
     (if scan_newline (drop a s) (int a) < 0
      then filter (\<lambda>i. s ! i = newline) [a..<length s] = []
      else a \<le> nat (scan_newline (drop a s) (int a))
         \<and> nat (scan_newline (drop a s) (int a)) < length s
         \<and> filter (\<lambda>i. s ! i = newline) [a..<length s]
             = nat (scan_newline (drop a s) (int a))
               # filter (\<lambda>i. s ! i = newline)
                   [Suc (nat (scan_newline (drop a s) (int a)))..<length s])"
proof (induction "length s - a" arbitrary: a)
  case 0
  then show ?case by simp
next
  case (Suc n)
  then have lt: "a < length s" by simp
  then have d: "drop a s = s ! a # drop (Suc a) s"
    by (simp add: Cons_nth_drop_Suc)
  have u: "[a..<length s] = a # [Suc a..<length s]"
    using lt by (simp add: upt_conv_Cons)
  show ?case
  proof (cases "s ! a = newline")
    case True
    then show ?thesis using lt by (simp add: d u)
  next
    case False
    have n: "n = length s - Suc a" using Suc.hyps(2) by simp
    have le: "Suc a \<le> length s" using lt by simp
    have i: "int a + 1 = int (Suc a)" by simp
    from Suc.hyps(1) [OF n le] False show ?thesis
      unfolding d u by (simp only: scan_newline.simps if_False i filter.simps) auto
  qed
qed

lemma newlines_after_filter:
  "- 1 \<le> k \<Longrightarrow>
     newlines_after s k = map int (filter (\<lambda>i. s ! i = newline) [nat (k + 1)..<length s])"
proof (induction s k rule: newlines_after.induct)
  case (1 raw_str init_idx)
  let ?a = "nat (init_idx + 1)"
  let ?P = "\<lambda>i. raw_str ! i = newline"
  show ?case
  proof (cases "?a \<le> length raw_str")
    case False
    then have "find_newline raw_str (init_idx + 1) = - 1"
      using "1.prems" by (simp add: find_newline_def slice_bound_def min_def)
    with False show ?thesis
      by (subst newlines_after.simps) simp
  next
    case True
    then have f: "find_newline raw_str (init_idx + 1) = scan_newline (drop ?a raw_str) (int ?a)"
      using "1.prems" by (simp add: find_newline_def slice_bound_def min_def)
    show ?thesis
    proof (cases "find_newline raw_str (init_idx + 1) < 0")
      case neg: True
      with scan_newline_filter [OF True] f have "filter ?P [?a..<length raw_str] = []"
        by simp
      with neg show ?thesis
        by (subst newlines_after.simps) simp
    next
      case pos: False
      let ?r = "find_newline raw_str (init_idx + 1)"
      from scan_newline_filter [OF True] f pos
      have r: "filter ?P [?a..<length raw_str] = nat ?r # filter ?P [Suc (nat ?r)..<length raw_str]"
        by simp
      have ih: "newlines_after raw_str ?r = map int (filter ?P [nat (?r + 1)..<length raw_str])"
        using "1.IH" [OF refl] pos by simp
      have "nat (?r + 1) = Suc (nat ?r)" using pos by simp
      with ih r pos show ?thesis
        by (subst newlines_after.simps) (simp add: Let_def)
    qed
  qed
qed

lemma iter_indices_of_newlines_offsets:
  "iter_indices_of_newlines text = newline_offsets text"
  by (simp add: iter_indices_of_newlines_def newline_offsets_def newlines_after_filter)

lemma sorted_newline_offsets: "sorted_wrt (<) (newline_offsets text)"
  by (simp add: newline_offsets_def sorted_wrt_map sorted_wrt_filter)

lemma list_item_nth:
  "0 \<le> i \<Longrightarrow> i < int (length xs) \<Longrightarrow> list_item xs i = Inr (xs ! nat i)"
  by (simp add: list_item_def)

lemma nl_idx_loop_takeWhile:
  "- 1 \<le> k \<Longrightarrow>
     nl_idx_loop xs off k
       = Inr (k + int (length (takeWhile (\<lambda>v. v < off) (drop (nat (k + 1)) xs))))"
proof (induction xs off k rule: nl_idx_loop.induct)
  case (1 ref_str char_pos nl_idx)
  let ?i = "nat (nl_idx + 1)"
  show ?case
  proof (cases "nl_idx + 1 < int (length ref_str)")
    case False
    then have "drop ?i ref_str = []" by simp
    with False show ?thesis
      by (subst nl_idx_loop.simps) simp
  next
    case True
    then have item: "list_item ref_str (nl_idx + 1) = Inr (ref_str ! ?i)"
      using "1.prems" by (simp add: list_item_nth)
    have d: "drop ?i ref_str = ref_str ! ?i # drop (Suc ?i) ref_str"
      using True "1.prems" by (simp add: Cons_nth_drop_Suc)
    have s: "nat (nl_idx + 1 + 1) = Suc ?i" "nat (2 + nl_idx) = Suc ?i"
      using "1.prems" by simp_all
    show ?thesis
    proof (cases "ref_str ! ?i < char_pos")
      case less: True
      from "1.IH" [OF True item less] "1.prems"
      have "nl_idx_loop ref_str char_pos (nl_idx + 1)
        = Inr (nl_idx + 1 + int (length (takeWhile (\<lambda>v. v < char_pos) (drop (Suc ?i) ref_str))))"
        by (simp add: s)
      with True item less show ?thesis
        by (subst nl_idx_loop.simps) (simp add: d)
    next
      case False
      with True item show ?thesis
        by (subst nl_idx_loop.simps) (simp add: d)
    qed
  qed
qed

lemma takeWhile_filter_sorted:
  "sorted_wrt (<) xs \<Longrightarrow>
     takeWhile (\<lambda>v. v < off) xs = filter (\<lambda>v. v < (off::int)) xs"
proof (induction xs)
  case Nil
  then show ?case by simp
next
  case (Cons x xs)
  show ?case
  proof (cases "x < off")
    case True
    with Cons show ?thesis by simp
  next
    case False
    with Cons.prems have "\<forall>y\<in>set xs. \<not> y < off" by auto
    then have "filter (\<lambda>v. v < off) xs = []" by (simp add: filter_empty_conv)
    with False show ?thesis by simp
  qed
qed

lemma ref_newlines_init:
  "(if source then source_newlines (TemplatedFile_init s t f sl)
    else templated_newlines (TemplatedFile_init s t f sl))
   = newline_offsets (selected_text (TemplatedFile_init s t f sl) source)"
  by (simp add: TemplatedFile_init_def selected_text_def iter_indices_of_newlines_offsets)

lemma get_line_pos_sorted:
  assumes "sorted_wrt (<) xs"
    and "(if source then source_newlines self else templated_newlines self) = xs"
  shows "get_line_pos_of_char_pos self off source =
           Inr (if filter (\<lambda>v. v < off) xs = [] then (1, off + 1)
                else (int (length (filter (\<lambda>v. v < off) xs)) + 1,
                      off - last (filter (\<lambda>v. v < off) xs)))"
proof -
  let ?B = "filter (\<lambda>v. v < off) xs"
  have tw: "takeWhile (\<lambda>v. v < off) xs = ?B"
    using assms(1) by (rule takeWhile_filter_sorted)
  have loop: "nl_idx_loop xs off (- 1) = Inr (int (length ?B) - 1)"
    using nl_idx_loop_takeWhile [of "- 1" xs off] by (simp add: tw)
  show ?thesis
  proof (cases "?B = []")
    case True
    then show ?thesis
      by (simp add: get_line_pos_of_char_pos_def assms(2) loop)
  next
    case False
    then have pos: "0 < length ?B" by simp
    have lt: "int (length ?B) - 1 < int (length xs)"
      using length_filter_le [of "\<lambda>v. v < off" xs] by linarith
    have "last ?B = ?B ! (length ?B - 1)"
      using False by (rule last_conv_nth)
    also have "\<dots> = takeWhile (\<lambda>v. v < off) xs ! (length ?B - 1)"
      by (simp only: tw)
    also have "\<dots> = xs ! (length ?B - 1)"
      using pos by (intro takeWhile_nth) (simp add: tw)
    finally have l: "xs ! (length ?B - 1) = last ?B" by simp
    have "list_item xs (int (length ?B) - 1) = Inr (xs ! nat (int (length ?B) - 1))"
      using pos lt by (intro list_item_nth) simp_all
    moreover have "nat (int (length ?B) - 1) = length ?B - 1"
      by simp
    ultimately have item: "list_item xs (int (length ?B) - 1) = Inr (last ?B)"
      using l by simp
    have ge: "0 \<le> int (length ?B) - 1"
      using pos by simp
    show ?thesis
      using False ge
      by (simp add: get_line_pos_of_char_pos_def assms(2) loop item)
  qed
qed

lemma get_line_pos_text:
  "get_line_pos_of_char_pos (TemplatedFile_init s t f sl) off source =
     Inr (if filter (\<lambda>v. v < off)
                (newline_offsets (selected_text (TemplatedFile_init s t f sl) source)) = []
          then (1, off + 1)
          else (int (length (filter (\<lambda>v. v < off)
                  (newline_offsets (selected_text (TemplatedFile_init s t f sl) source)))) + 1,
                off - last (filter (\<lambda>v. v < off)
                  (newline_offsets (selected_text (TemplatedFile_init s t f sl) source)))))"
  by (rule get_line_pos_sorted [OF sorted_newline_offsets ref_newlines_init])

section \<open>Claims about line and column resolution\<close>

lemma sorted_last_Max:
  assumes "sorted_wrt (<) B" and "B \<noteq> []"
  shows "Max (set B) = last (B::int list)"
proof (rule Max_eqI)
  show "finite (set B)" by simp
  show "last B \<in> set B" using assms(2) by simp
  fix y assume y: "y \<in> set B"
  from assms(2) have "B = butlast B @ [last B]" by simp
  then have "sorted_wrt (<) (butlast B @ [last B])" using assms(1) by simp
  then have "\<forall>x\<in>set (butlast B). x < last B"
    by (simp add: sorted_wrt_append)
  moreover from y \<open>B = butlast B @ [last B]\<close> have "y \<in> set (butlast B) \<or> y = last B"
    by (metis Un_iff insert_iff list.simps(15) set_append empty_set empty_iff)
  ultimately show "y \<le> last B" by auto
qed

lemma greatest_newline_before_last:
  "greatest_newline_before text off =
     (if filter (\<lambda>v. v < off) (newline_offsets text) = [] then None
      else Some (last (filter (\<lambda>v. v < off) (newline_offsets text))))"
proof (cases "filter (\<lambda>v. v < off) (newline_offsets text) = []")
  case True
  then show ?thesis by (simp add: greatest_newline_before_def)
next
  case False
  then have "Max (set (filter (\<lambda>v. v < off) (newline_offsets text)))
             = last (filter (\<lambda>v. v < off) (newline_offsets text))"
    by (intro sorted_last_Max sorted_wrt_filter sorted_newline_offsets)
  with False show ?thesis
    by (simp add: greatest_newline_before_def Let_def del: set_filter)
qed

lemma count_newlines_upto_greatest:
  assumes "filter (\<lambda>v. v < off) (newline_offsets text) \<noteq> []"
  shows "count_newlines_upto text (last (filter (\<lambda>v. v < off) (newline_offsets text)))
           = length (filter (\<lambda>v. v < off) (newline_offsets text))"
proof -
  let ?xs = "newline_offsets text"
  let ?B = "filter (\<lambda>v. v < off) ?xs"
  have mx: "Max (set ?B) = last ?B"
    using assms by (intro sorted_last_Max sorted_wrt_filter sorted_newline_offsets)
  have "last ?B \<in> set ?B" using assms by (rule last_in_set)
  then have lt: "last ?B < off" by simp
  have "\<forall>x\<in>set ?xs. (x \<le> last ?B) = (x < off)"
  proof
    fix x assume x: "x \<in> set ?xs"
    show "(x \<le> last ?B) = (x < off)"
    proof
      assume "x \<le> last ?B" with lt show "x < off" by simp
    next
      assume "x < off"
      with x have "x \<in> set ?B" by simp
      then have "x \<le> Max (set ?B)" by (intro Max_ge) simp_all
      with mx show "x \<le> last ?B" by simp
    qed
  qed
  then have "filter (\<lambda>p. p \<le> last ?B) ?xs = ?B"
    by (intro filter_cong) simp_all
  then show ?thesis by (simp add: count_newlines_upto_def)
qed

text \<open>
  Claim C5 (amended). For every text and every valid offset, \<^verbatim>\<open>get_line_pos_of_char_pos\<close>
  returns line = (number of newline offsets at most \<open>n\<close>) + 1 and column = offset - \<open>n\<close>
  when \<open>n\<close>, the greatest newline offset strictly less than the offset, exists, and line 1
  and column = offset + 1 otherwise. The line is one more than that count, not two more.
\<close>

theorem line_and_column_formula:
  assumes "0 \<le> off"
    and "off \<le> int (length (selected_text (TemplatedFile_init s t f sl) source))"
  shows "get_line_pos_of_char_pos (TemplatedFile_init s t f sl) off source =
           Inr (case greatest_newline_before
                       (selected_text (TemplatedFile_init s t f sl) source) off of
                  None \<Rightarrow> (1, off + 1)
                | Some n \<Rightarrow>
                    (int (count_newlines_upto
                            (selected_text (TemplatedFile_init s t f sl) source) n) + 1,
                     off - n))"
proof -
  let ?text = "selected_text (TemplatedFile_init s t f sl) source"
  show ?thesis
  proof (cases "filter (\<lambda>v. v < off) (newline_offsets ?text) = []")
    case True
    then show ?thesis
      by (simp add: get_line_pos_text greatest_newline_before_last)
  next
    case False
    then show ?thesis
      by (simp add: get_line_pos_text greatest_newline_before_last
          count_newlines_upto_greatest)
  qed
qed

lemma offsets_a_nl_b:
  "newline_offsets [CHR ''a'', newline, CHR ''b''] = [1]"
  by (simp add: newline_offsets_def newline_def)

lemma selected_text_init:
  "selected_text (TemplatedFile_init s None f sl) source = s"
  by (simp add: selected_text_def TemplatedFile_init_def str_or_def)

theorem line_and_column_formula_witness:
  "get_line_pos_of_char_pos (TemplatedFile_init [CHR ''a'', newline, CHR ''b''] None None None)
       2 True = Inr (2, 1)"
proof -
  have 1: "(0::int) \<le> 2" by simp
  have 2: "2 \<le> int (length (selected_text
              (TemplatedFile_init [CHR ''a'', newline, CHR ''b''] None None None) True))"
    by (simp add: selected_text_init)
  from line_and_column_formula [OF 1 2] show ?thesis
    by (simp add: selected_text_init greatest_newline_before_def count_newlines_upto_def
        offsets_a_nl_b)
qed

text \<open>
  In the text made of an \<open>a\<close>, a newline and a \<open>b\<close>, the offset 2 has the newline at
  offset 1 before it: one newline offset is at most 1, so the claimed line is 3, while the
  function returns line 2.
\<close>

theorem line_formula_counterexample:
  "get_line_pos_of_char_pos (TemplatedFile_init [CHR ''a'', newline, CHR ''b''] None None None)
       2 True = Inr (2, 1)
   \<and> greatest_newline_before [CHR ''a'', newline, CHR ''b''] 2 = Some 1
   \<and> int (count_newlines_upto [CHR ''a'', newline, CHR ''b''] 1) + 2 = 3
   \<and> get_line_pos_of_char_pos (TemplatedFile_init [CHR ''a'', newline, CHR ''b''] None None None)
       2 True \<noteq> Inr (spec_line_and_column [CHR ''a'', newline, CHR ''b''] 2)"
proof -
  have g: "get_line_pos_of_char_pos
             (TemplatedFile_init [CHR ''a'', newline, CHR ''b''] None None None) 2 True
           = Inr (2, 1)"
    by (simp add: get_line_pos_text selected_text_init offsets_a_nl_b)
  have n: "greatest_newline_before [CHR ''a'', newline, CHR ''b''] 2 = Some 1"
    by (simp add: greatest_newline_before_def offsets_a_nl_b)
  have c: "count_newlines_upto [CHR ''a'', newline, CHR ''b''] 1 = 1"
    by (simp add: count_newlines_upto_def offsets_a_nl_b)
  have "spec_line_and_column [CHR ''a'', newline, CHR ''b''] 2 = (3, 1)"
    by (simp add: spec_line_and_column_def n c)
  with g n c show ?thesis by simp
qed

text \<open>
  Claim C8. For every text and every pair of valid offsets \<open>o1 < o2\<close> in it, both queries
  return, the line of \<open>o1\<close> is at most the line of \<open>o2\<close>, and when the lines are equal the
  column of \<open>o1\<close> is strictly less than the column of \<open>o2\<close>.
\<close>

theorem line_numbering_monotone:
  assumes "0 \<le> o1" and "o1 < o2"
    and "o2 \<le> int (length (selected_text (TemplatedFile_init s t f sl) source))"
  shows "\<exists>l1 c1 l2 c2.
           get_line_pos_of_char_pos (TemplatedFile_init s t f sl) o1 source = Inr (l1, c1)
         \<and> get_line_pos_of_char_pos (TemplatedFile_init s t f sl) o2 source = Inr (l2, c2)
         \<and> l1 \<le> l2 \<and> (l1 = l2 \<longrightarrow> c1 < c2)"
proof -
  let ?tf = "TemplatedFile_init s t f sl"
  let ?xs = "newline_offsets (selected_text ?tf source)"
  let ?B1 = "filter (\<lambda>v. v < o1) ?xs"
  let ?B2 = "filter (\<lambda>v. v < o2) ?xs"
  have sub: "?B1 = filter (\<lambda>v. v < o1) ?B2"
    using assms(2) by (simp add: conj_commute) (rule filter_cong, auto)
  have le: "length ?B1 \<le> length ?B2"
    by (subst sub) (rule length_filter_le)
  have same: "?B1 = ?B2" if "length ?B1 = length ?B2"
  proof -
    have "\<forall>x\<in>set ?B2. x < o1"
    proof (rule ccontr)
      assume "\<not> (\<forall>x\<in>set ?B2. x < o1)"
      then obtain x where "x \<in> set ?B2" "\<not> x < o1" by blast
      then have "length (filter (\<lambda>v. v < o1) ?B2) < length ?B2"
        by (rule length_filter_less)
      with sub that show False by simp
    qed
    then have "filter (\<lambda>v. v < o1) ?B2 = ?B2"
      by (simp only: filter_id_conv)
    with sub show ?thesis by simp
  qed
  define l1 where "l1 = int (length ?B1) + 1"
  define l2 where "l2 = int (length ?B2) + 1"
  define c1 where "c1 = (if ?B1 = [] then o1 + 1 else o1 - last ?B1)"
  define c2 where "c2 = (if ?B2 = [] then o2 + 1 else o2 - last ?B2)"
  have r1: "get_line_pos_of_char_pos ?tf o1 source = Inr (l1, c1)"
    by (simp add: get_line_pos_text l1_def c1_def)
  have r2: "get_line_pos_of_char_pos ?tf o2 source = Inr (l2, c2)"
    by (simp add: get_line_pos_text l2_def c2_def)
  have "l1 \<le> l2" using le by (simp add: l1_def l2_def)
  moreover have "c1 < c2" if "l1 = l2"
  proof -
    from that have "length ?B1 = length ?B2" by (simp add: l1_def l2_def)
    then have "?B1 = ?B2" by (rule same)
    then show ?thesis using assms(2) by (simp add: c1_def c2_def)
  qed
  ultimately show ?thesis using r1 r2 by blast
qed

theorem line_numbering_monotone_witness:
  "\<exists>l1 c1 l2 c2.
     get_line_pos_of_char_pos (TemplatedFile_init [CHR ''a'', newline, CHR ''b''] None None None)
       1 True = Inr (l1, c1)
   \<and> get_line_pos_of_char_pos (TemplatedFile_init [CHR ''a'', newline, CHR ''b''] None None None)
       2 True = Inr (l2, c2)
   \<and> l1 \<le> l2 \<and> (l1 = l2 \<longrightarrow> c1 < c2)"
proof -
  have 1: "(0::int) \<le> 1" and 2: "(1::int) < 2" by simp_all
  have 3: "2 \<le> int (length (selected_text
              (TemplatedFile_init [CHR ''a'', newline, CHR ''b''] None None None) True))"
    by (simp add: selected_text_init)
  from line_numbering_monotone [OF 1 2 3] show ?thesis .
qed

lemma newline_offsets_member:
  "(v \<in> set (newline_offsets text))
     = (0 \<le> v \<and> v < int (length text) \<and> text ! nat v = newline)"
proof
  assume "v \<in> set (newline_offsets text)"
  then obtain i where "v = int i" "i < length text" "text ! i = newline"
    by (auto simp: newline_offsets_def)
  then show "0 \<le> v \<and> v < int (length text) \<and> text ! nat v = newline" by simp
next
  assume a: "0 \<le> v \<and> v < int (length text) \<and> text ! nat v = newline"
  then have "nat v < length text" "text ! nat v = newline" "v = int (nat v)"
    by (auto simp: nat_less_iff)
  then show "v \<in> set (newline_offsets text)"
    unfolding newline_offsets_def by (metis (mono_tags, lifting) atLeast0LessThan
        imageI lessThan_iff mem_Collect_eq set_filter set_map set_upt)
qed

lemma filter_below_next:
  "sorted_wrt (<) xs \<Longrightarrow>
     filter (\<lambda>v. v < off + 1) xs
       = filter (\<lambda>v. v < off) xs @ (if off \<in> set xs then [off::int] else [])"
proof (induction xs)
  case Nil
  then show ?case by simp
next
  case (Cons x xs)
  then have above: "\<forall>y\<in>set xs. x < y" and sorted: "sorted_wrt (<) xs"
    by simp_all
  consider "x < off" | "x = off" | "off < x" by linarith
  then show ?case
  proof cases
    case 1
    with Cons.IH [OF sorted] show ?thesis by auto
  next
    case 2
    with above have "filter (\<lambda>v. v < off + 1) xs = []" "filter (\<lambda>v. v < off) xs = []"
      by (auto simp: filter_empty_conv)
    with 2 show ?thesis by simp
  next
    case 3
    with above have "filter (\<lambda>v. v < off + 1) xs = []" "filter (\<lambda>v. v < off) xs = []"
      "off \<notin> set xs"
      by (auto simp: filter_empty_conv)
    with 3 show ?thesis by simp
  qed
qed

lemma newline_offsets_nonneg:
  "off < 0 \<Longrightarrow> filter (\<lambda>v. v < off) (newline_offsets text) = []"
  by (auto simp: filter_empty_conv newline_offsets_member)

lemma get_line_pos_next:
  assumes "0 \<le> off" and "off < int (length (selected_text (TemplatedFile_init s t f sl) source))"
  shows "\<exists>l c. get_line_pos_of_char_pos (TemplatedFile_init s t f sl) off source = Inr (l, c)
         \<and> get_line_pos_of_char_pos (TemplatedFile_init s t f sl) (off + 1) source
             = Inr (if selected_text (TemplatedFile_init s t f sl) source ! nat off = newline
                    then (l + 1, 1) else (l, c + 1))"
proof -
  let ?tf = "TemplatedFile_init s t f sl"
  let ?text = "selected_text ?tf source"
  let ?xs = "newline_offsets ?text"
  let ?B = "filter (\<lambda>v. v < off) ?xs"
  have mem: "(off \<in> set ?xs) = (?text ! nat off = newline)"
    using assms by (simp add: newline_offsets_member)
  have nxt: "filter (\<lambda>v. v < off + 1) ?xs = ?B @ (if ?text ! nat off = newline then [off] else [])"
    using filter_below_next [OF sorted_newline_offsets, of off ?text] by (simp only: mem)
  define l where "l = int (length ?B) + 1"
  define c where "c = (if ?B = [] then off + 1 else off - last ?B)"
  have r: "get_line_pos_of_char_pos ?tf off source = Inr (l, c)"
    by (simp add: get_line_pos_text l_def c_def)
  have "get_line_pos_of_char_pos ?tf (off + 1) source
          = Inr (if ?text ! nat off = newline then (l + 1, 1) else (l, c + 1))"
    unfolding get_line_pos_text nxt by (simp add: l_def c_def)
  with r show ?thesis by blast
qed

text \<open>
  Claim C2 (amended). \<^verbatim>\<open>get_line_pos_of_char_pos\<close> validates nothing and has no
  \<^verbatim>\<open>InvalidOffset\<close> failure: it returns a line and a column for every integer offset. A
  negative offset gives line 1 and column offset + 1, an offset past the end of the text is
  answered like any other. An offset equal to the length of the text gives the position
  that follows the last character: one column further on the same line, or column 1 of the
  next line when the last character is a newline (and line 1, column 1 in an empty text).
\<close>

theorem offsets_not_validated:
  "(\<exists>line col.
      get_line_pos_of_char_pos (TemplatedFile_init s t f sl) off source = Inr (line, col))
   \<and> (off < 0 \<longrightarrow>
        get_line_pos_of_char_pos (TemplatedFile_init s t f sl) off source = Inr (1, off + 1))
   \<and> (selected_text (TemplatedFile_init s t f sl) source = [] \<longrightarrow>
        get_line_pos_of_char_pos (TemplatedFile_init s t f sl) 0 source = Inr (1, 1))
   \<and> (selected_text (TemplatedFile_init s t f sl) source \<noteq> [] \<longrightarrow>
        (\<exists>l c.
           get_line_pos_of_char_pos (TemplatedFile_init s t f sl)
             (int (length (selected_text (TemplatedFile_init s t f sl) source)) - 1) source
             = Inr (l, c)
         \<and> get_line_pos_of_char_pos (TemplatedFile_init s t f sl)
             (int (length (selected_text (TemplatedFile_init s t f sl) source))) source
             = Inr (if last (selected_text (TemplatedFile_init s t f sl) source) = newline
                    then (l + 1, 1) else (l, c + 1))))"
proof (intro conjI impI)
  let ?tf = "TemplatedFile_init s t f sl"
  let ?text = "selected_text ?tf source"
  show "\<exists>line col. get_line_pos_of_char_pos ?tf off source = Inr (line, col)"
    by (simp add: get_line_pos_text)
  show "get_line_pos_of_char_pos ?tf off source = Inr (1, off + 1)" if "off < 0"
    using that by (simp add: get_line_pos_text newline_offsets_nonneg)
  show "get_line_pos_of_char_pos ?tf 0 source = Inr (1, 1)" if "?text = []"
    using that by (simp add: get_line_pos_text newline_offsets_def)
  show "\<exists>l c. get_line_pos_of_char_pos ?tf (int (length ?text) - 1) source = Inr (l, c)
         \<and> get_line_pos_of_char_pos ?tf (int (length ?text)) source
             = Inr (if last ?text = newline then (l + 1, 1) else (l, c + 1))"
    if ne: "?text \<noteq> []"
  proof -
    from ne have 1: "0 \<le> int (length ?text) - 1" and 2: "int (length ?text) - 1 < int (length ?text)"
      by simp_all
    have "nat (int (length ?text) - 1) = length ?text - 1" by simp
    then have l: "?text ! nat (int (length ?text) - 1) = last ?text"
      using ne by (simp add: last_conv_nth)
    from get_line_pos_next [OF 1 2] show ?thesis
      by (simp add: l)
  qed
qed

theorem offsets_not_validated_witness:
  "get_line_pos_of_char_pos (TemplatedFile_init [CHR ''a'', newline, CHR ''b''] None None None)
       (- 1) True = Inr (1, 0)"
  using offsets_not_validated [of "[CHR ''a'', newline, CHR ''b'']" None None None "- 1" True]
  by simp

text \<open>
  In a text of three characters the offsets \<open>-1\<close> and \<open>7\<close> are both answered with a
  position.
\<close>

theorem invalid_offset_counterexample:
  "get_line_pos_of_char_pos (TemplatedFile_init [CHR ''a'', newline, CHR ''b''] None None None)
       (- 1) True = Inr (1, 0)
   \<and> get_line_pos_of_char_pos (TemplatedFile_init [CHR ''a'', newline, CHR ''b''] None None None)
       7 True = Inr (2, 6)
   \<and> int (length (selected_text
          (TemplatedFile_init [CHR ''a'', newline, CHR ''b''] None None None) True)) < 7"
  by (simp add: get_line_pos_text selected_text_init offsets_a_nl_b)

section \<open>Claims about construction and equality\<close>

text \<open>
  Claim C10. Constructing a \<^verbatim>\<open>TemplatedFile\<close> with the empty string as templated text gives
  the same object as constructing it with no templated text: the templated text is the
  source text. Its truth value is then whether the source text is non-empty, and no
  construction pairs a non-empty source with an empty templated text.
\<close>

theorem templated_str_defaults:
  "TemplatedFile_init s (Some []) f sl = TemplatedFile_init s None f sl
   \<and> TemplatedFile_bool (TemplatedFile_init s (Some []) f sl) = (s \<noteq> [])
   \<and> (s \<noteq> [] \<longrightarrow> templated_str (TemplatedFile_init s t f sl) \<noteq> [])"
  by (cases t) (simp_all add: TemplatedFile_init_def TemplatedFile_bool_def str_or_def)

theorem templated_str_defaults_witness:
  "templated_str (TemplatedFile_init ''SELECT 1'' (Some []) None None) \<noteq> []"
proof -
  have "''SELECT 1'' \<noteq> []" by simp
  with templated_str_defaults [where s = "''SELECT 1''" and t = "Some []" and f = None
      and sl = None]
  show ?thesis by blast
qed

text \<open>The method \<^verbatim>\<open>RawTemplater.__eq__(self, other)\<close> is
  \<^verbatim>\<open>isinstance(other, self.__class__)\<close>; the operator \<^verbatim>\<open>==\<close> calls it on the operand
  Python gives priority to.\<close>

lemma RawTemplater_eq_isinstance:
  "RawTemplater_eq self other
     = (class_of other = class_of self \<or> base_class (class_of other) = Some (class_of self))"
  by (simp add: RawTemplater_eq_def isinstance_def issubclass_def)

lemma py_eq_classes:
  "py_eq v w = (class_of v = class_of w)"
  by (cases "class_of v"; cases "class_of w")
     (simp_all add: py_eq_def RawTemplater_eq_isinstance issubclass_def)

text \<open>
  Claim C9. Two templater instances compare equal if and only if they are instances of the
  same class. The relation is symmetric, and an instance of a subclass and an instance of
  its base class are never equal, whichever operand comes first.
\<close>

theorem templater_equality_same_class:
  "py_eq v w = (class_of v = class_of w)
   \<and> py_eq v w = py_eq w v
   \<and> (class_of v \<noteq> class_of w \<and> issubclass (class_of w) (class_of v)
        \<longrightarrow> \<not> py_eq v w \<and> \<not> py_eq w v)"
proof (intro conjI impI)
  show "py_eq v w = (class_of v = class_of w)"
    by (rule py_eq_classes)
  show "py_eq v w = py_eq w v"
    by (auto simp: py_eq_classes)
next
  assume "class_of v \<noteq> class_of w \<and> issubclass (class_of w) (class_of v)"
  then have "class_of v \<noteq> class_of w" by blast
  then show "\<not> py_eq v w" and "\<not> py_eq w v"
    by (auto simp: py_eq_classes)
qed

theorem templater_equality_same_class_witness:
  "\<not> py_eq \<lparr> class_of = RawTemplater \<rparr> \<lparr> class_of = DataformTemplater \<rparr>
   \<and> \<not> py_eq \<lparr> class_of = DataformTemplater \<rparr> \<lparr> class_of = RawTemplater \<rparr>
   \<and> py_eq \<lparr> class_of = DataformTemplater \<rparr> \<lparr> class_of = DataformTemplater \<rparr>"
proof -
  have h: "class_of \<lparr> class_of = RawTemplater \<rparr> \<noteq> class_of \<lparr> class_of = DataformTemplater \<rparr>
           \<and> issubclass (class_of \<lparr> class_of = DataformTemplater \<rparr>)
                 (class_of \<lparr> class_of = RawTemplater \<rparr>)"
    by (simp add: issubclass_def)
  from templater_equality_same_class
         [of "\<lparr> class_of = RawTemplater \<rparr>" "\<lparr> class_of = DataformTemplater \<rparr>"] h
  have "\<not> py_eq \<lparr> class_of = RawTemplater \<rparr> \<lparr> class_of = DataformTemplater \<rparr>"
    and "\<not> py_eq \<lparr> class_of = DataformTemplater \<rparr> \<lparr> class_of = RawTemplater \<rparr>"
    by blast+
  moreover from templater_equality_same_class
         [of "\<lparr> class_of = DataformTemplater \<rparr>" "\<lparr> class_of = DataformTemplater \<rparr>"]
  have "py_eq \<lparr> class_of = DataformTemplater \<rparr> \<lparr> class_of = DataformTemplater \<rparr>"
    by simp
  ultimately show ?thesis by blast
qed

end
